theory Spec2Isabelle
  imports Complex_Main "HOL-Library.Sublist"
begin

section \<open>Geometry: cover crop and OCR crop\<close>

text \<open>
  The source computes on JavaScript numbers. They are modelled as real numbers, so every
  statement below is one of exact arithmetic. A division by zero, which in JavaScript
  gives Infinity or NaN (and never throws), has no counterpart in this model: the
  statements about the rectangle that a geometry function returns are made for inputs at
  which no divisor is zero.
\<close>

record rect =
  sx :: real
  sy :: real
  sw :: real
  sh :: real

text \<open>The two fields that the source reads from an ImageBitmap and from a canvas element.\<close>

record sized =
  width :: real
  height :: real

definition GUIDE_WIDTH :: real where
  "GUIDE_WIDTH = 100"

definition GUIDE_HEIGHT :: real where
  "GUIDE_HEIGHT = 40"

text \<open>
  The locals \<open>sx\<close>, \<open>sy\<close>, \<open>sw\<close>, \<open>sh\<close> of \<open>computeCoverCrop\<close> are written
  \<open>x\<close>, \<open>y\<close>, \<open>w\<close>, \<open>h\<close>, the former being the field names of the result.
\<close>

definition computeCoverCrop :: "real \<Rightarrow> real \<Rightarrow> real \<Rightarrow> real \<Rightarrow> rect" where
  "computeCoverCrop srcW srcH dstW dstH =
     (let srcRatio = srcW / srcH;
          dstRatio = dstW / dstH
      in if srcRatio > dstRatio
         then (let h = srcH;
                   w = h * dstRatio;
                   x = (srcW - w) / 2;
                   y = 0
               in \<lparr>sx = x, sy = y, sw = w, sh = h\<rparr>)
         else (let w = srcW;
                   h = w / dstRatio;
                   x = 0;
                   y = (srcH - h) / 2
               in \<lparr>sx = x, sy = y, sw = w, sh = h\<rparr>))"

text \<open>
  \<open>computeOCRCrop\<close> reads the module-level \<open>canvas\<close>; the model takes it as its first
  argument.
\<close>

definition computeOCRCrop :: "sized \<Rightarrow> sized \<Rightarrow> rect" where
  "computeOCRCrop canvas frame =
     (let displayCrop = computeCoverCrop (width frame) (height frame) (width canvas) (height canvas);
          scaleX = sw displayCrop / width canvas;
          scaleY = sh displayCrop / height canvas;
          boxX = (width canvas - GUIDE_WIDTH) / 2;
          boxY = (height canvas - GUIDE_HEIGHT) / 2
      in \<lparr>sx = sx displayCrop + boxX * scaleX,
          sy = sy displayCrop + boxY * scaleY,
          sw = GUIDE_WIDTH * scaleX,
          sh = GUIDE_HEIGHT * scaleY\<rparr>)"

text \<open>
  The guide box as \<open>drawHelperBox\<close> draws it on the canvas: its corner
  \<open>(x, y)\<close> and the fixed size passed to \<open>fillRect\<close> and \<open>strokeRect\<close>.
\<close>

definition guideBox :: "sized \<Rightarrow> rect" where
  "guideBox canvas =
     (let x = (width canvas - GUIDE_WIDTH) / 2;
          y = (height canvas - GUIDE_HEIGHT) / 2
      in \<lparr>sx = x, sy = y, sw = GUIDE_WIDTH, sh = GUIDE_HEIGHT\<rparr>)"

text \<open>
  The outcome of a call as a value. Neither geometry function has a guard or a
  \<open>throw\<close> statement, and arithmetic on JavaScript numbers never throws, so every call
  completes with the rectangle. \<open>InvalidDimension\<close> is the error that the
  specification names for these functions.
\<close>

datatype geometry_error = InvalidDimension

definition computeCoverCrop_outcome ::
  "real \<Rightarrow> real \<Rightarrow> real \<Rightarrow> real \<Rightarrow> geometry_error + rect" where
  "computeCoverCrop_outcome srcW srcH dstW dstH = Inr (computeCoverCrop srcW srcH dstW dstH)"

definition computeOCRCrop_outcome :: "sized \<Rightarrow> sized \<Rightarrow> geometry_error + rect" where
  "computeOCRCrop_outcome canvas frame = Inr (computeOCRCrop canvas frame)"

section \<open>Catalog, recognized text and the recognition cycle\<close>

record HotWheelsEntry =
  Number :: string
  Name :: string
  Year :: string
  Color :: string

definition OCR_INTERVAL :: real where
  "OCR_INTERVAL = 750"

text \<open>
  Strings are lists of 8-bit characters, so the model covers the texts whose code units
  lie below 256. \<open>String.prototype.trim\<close> removes white space and line terminators from
  both ends; in that range these are TAB, LF, VT, FF, CR, SPACE and NBSP.
\<close>

definition is_white_space :: "char \<Rightarrow> bool" where
  "is_white_space c \<longleftrightarrow> (of_char c :: nat) \<in> {9, 10, 11, 12, 13, 32, 160}"

definition trim :: "string \<Rightarrow> string" where
  "trim s = rev (dropWhile is_white_space (rev (dropWhile is_white_space s)))"

text \<open>
  The regular expression \<open>/^[A-Z0-9]{3,5}-[A-Z0-9]{3,5}$/\<close>. A pattern is a sequence
  of pieces, each a character class repeated between \<open>lo\<close> and \<open>hi\<close> times; the two
  anchors make \<open>test\<close> succeed exactly when the pieces consume the whole text, for some
  choice of the repetition counts.
\<close>

type_synonym piece = "(char \<Rightarrow> bool) \<times> nat \<times> nat"

fun matches_pieces :: "piece list \<Rightarrow> string \<Rightarrow> bool" where
  "matches_pieces [] s \<longleftrightarrow> s = []"
| "matches_pieces ((cls, lo, hi) # ps) s \<longleftrightarrow>
     list_ex (\<lambda>k. k \<le> length s \<and> list_all cls (take k s) \<and> matches_pieces ps (drop k s))
       [lo..<Suc hi]"

text \<open>The class \<open>[A-Z0-9]\<close>: two ranges of character codes.\<close>

definition upper_or_digit :: "char \<Rightarrow> bool" where
  "upper_or_digit c \<longleftrightarrow>
     (let n = of_char c :: nat
      in (of_char CHR ''A'' \<le> n \<and> n \<le> of_char CHR ''Z'') \<or>
         (of_char CHR ''0'' \<le> n \<and> n \<le> of_char CHR ''9''))"

definition hyphen :: "char \<Rightarrow> bool" where
  "hyphen c \<longleftrightarrow> c = CHR ''-''"

definition CODE_REGEX :: "piece list" where
  "CODE_REGEX = [(upper_or_digit, 3, 5), (hyphen, 1, 1), (upper_or_digit, 3, 5)]"

definition CODE_REGEX_test :: "string \<Rightarrow> bool" where
  "CODE_REGEX_test text = matches_pieces CODE_REGEX text"

text \<open>\<open>s.startsWith(p)\<close> for strings \<open>s\<close> and \<open>p\<close>.\<close>

fun startsWith :: "string \<Rightarrow> string \<Rightarrow> bool" where
  "startsWith s [] \<longleftrightarrow> True"
| "startsWith [] (c # p) \<longleftrightarrow> False"
| "startsWith (d # s) (c # p) \<longleftrightarrow> d = c \<and> startsWith s p"

text \<open>
  \<open>text.split('-')[0]\<close>: the text before the first hyphen, the whole text when it has
  none.
\<close>

definition split_first :: "string \<Rightarrow> string" where
  "split_first text = takeWhile (\<lambda>c. c \<noteq> CHR ''-'') text"

text \<open>
  Lines 209 to 215 of \<open>maybeRunOCR\<close>: from the text that the engine returned to the
  catalog entry found, \<open>None\<close> when the text is rejected or no entry is found.
\<close>

definition resolve :: "HotWheelsEntry list \<Rightarrow> string \<Rightarrow> HotWheelsEntry option" where
  "resolve hotwheelsData dataText =
     (let text = trim dataText
      in if \<not> CODE_REGEX_test text then None
         else (let prefix = split_first text
               in find (\<lambda>e. startsWith prefix (Number e)) hotwheelsData))"

text \<open>
  Lines 217 to 221: the new value of \<open>currentEntry\<close> and whether \<open>updateTable\<close> was
  called. \<open>currentEntry?.Number\<close> is \<open>undefined\<close> when \<open>currentEntry\<close> is null, and
  \<open>undefined\<close> differs from every string.
\<close>

definition update :: "HotWheelsEntry option \<Rightarrow> HotWheelsEntry option \<Rightarrow> HotWheelsEntry option \<times> bool" where
  "update currentEntry match =
     (case match of
        None \<Rightarrow> (currentEntry, False)
      | Some m \<Rightarrow>
          if Some (Number m) \<noteq> map_option Number currentEntry then (Some m, True)
          else (currentEntry, False))"

text \<open>Line 190: the test that lets a recognition attempt through.\<close>

definition shouldRun :: "real \<Rightarrow> real \<Rightarrow> real \<Rightarrow> bool" where
  "shouldRun now lastRunTimestamp intervalMs \<longleftrightarrow> \<not> now - lastRunTimestamp < intervalMs"

text \<open>
  The module state that \<open>maybeRunOCR\<close> reads and writes. \<open>worker\<close> says whether the
  recognition worker is non-null.
\<close>

record state =
  worker :: bool
  lastOcrTime :: real
  hotwheelsData :: "HotWheelsEntry list"
  currentEntry :: "HotWheelsEntry option"

text \<open>
  The state in which the render loop starts: the top-level code has awaited
  \<open>loadHotWheelsData\<close> and \<open>initTesseract\<close> before \<open>startRenderLoop\<close>.
\<close>

definition initial_state :: "HotWheelsEntry list \<Rightarrow> state" where
  "initial_state catalog =
     \<lparr>worker = True, lastOcrTime = 0, hotwheelsData = catalog, currentEntry = None\<rparr>"

text \<open>\<open>worker.recognize\<close> resolves with a text or rejects.\<close>

datatype ocr_error = RecognitionFailure

text \<open>
  \<open>maybeRunOCR\<close> is asynchronous. Its first part runs up to the \<open>await\<close>: it returns
  the state and whether recognition was started. Drawing the crop on the recognition canvas
  and the grey-scale pass change no module state and are left out.
\<close>

definition maybeRunOCR_begin :: "state \<Rightarrow> real \<Rightarrow> state \<times> bool" where
  "maybeRunOCR_begin s now =
     (if \<not> worker s then (s, False)
      else if now - lastOcrTime s < OCR_INTERVAL then (s, False)
      else (s\<lparr>lastOcrTime := now\<rparr>, True))"

text \<open>
  Its second part runs when the engine has answered, on the state of that moment: it
  returns the state and the entries passed to \<open>updateTable\<close>.
\<close>

definition maybeRunOCR_resume :: "state \<Rightarrow> ocr_error + string \<Rightarrow> state \<times> HotWheelsEntry list" where
  "maybeRunOCR_resume s answer =
     (case answer of
        Inl err \<Rightarrow> (s, [])
      | Inr dataText \<Rightarrow>
          (let text = trim dataText
           in if \<not> CODE_REGEX_test text then (s, [])
              else (let prefix = split_first text;
                        match = find (\<lambda>e. startsWith prefix (Number e)) (hotwheelsData s)
                    in case match of
                         None \<Rightarrow> (s, [])
                       | Some m \<Rightarrow>
                           if Some (Number m) \<noteq> map_option Number (currentEntry s)
                           then (s\<lparr>currentEntry := Some m\<rparr>, [m])
                           else (s, []))))"

text \<open>One call of \<open>maybeRunOCR\<close> whose recognition answers before the next call.\<close>

definition maybeRunOCR :: "state \<Rightarrow> real \<Rightarrow> ocr_error + string \<Rightarrow> state \<times> HotWheelsEntry list" where
  "maybeRunOCR s now answer =
     (case maybeRunOCR_begin s now of
        (s', False) \<Rightarrow> (s', [])
      | (s', True) \<Rightarrow> maybeRunOCR_resume s' answer)"

text \<open>
  A run of the program, as the sequence of its steps on the module state. The render loop
  calls \<open>maybeRunOCR\<close> without awaiting it, so the first part of a later call may run
  before the second part of an earlier one: a run is a list of events, each the first part of
  a call at some time or the second part of a call with the engine's answer. Every
  interleaving of the program is such a list. The result lists the state after every event.
\<close>

datatype event = Called real | Answered "ocr_error + string"

fun step :: "state \<Rightarrow> event \<Rightarrow> state" where
  "step s (Called now) = fst (maybeRunOCR_begin s now)"
| "step s (Answered answer) = fst (maybeRunOCR_resume s answer)"

fun run :: "state \<Rightarrow> event list \<Rightarrow> state list" where
  "run s [] = []"
| "run s (e # es) = (let s' = step s e in s' # run s' es)"

text \<open>
  The structural pattern in the words of the specification, for comparison with
  \<open>CODE_REGEX_test\<close>: three to five uppercase alphanumeric characters, a hyphen, three
  to five uppercase alphanumeric characters.
\<close>

definition uppercase_alphanumeric :: "char \<Rightarrow> bool" where
  "uppercase_alphanumeric c \<longleftrightarrow> c \<in> set ''ABCDEFGHIJKLMNOPQRSTUVWXYZ0123456789''"

definition structural_pattern :: "string \<Rightarrow> bool" where
  "structural_pattern t \<longleftrightarrow>
     (\<exists>a b. t = a @ ''-'' @ b \<and>
        3 \<le> length a \<and> length a \<le> 5 \<and> 3 \<le> length b \<and> length b \<le> 5 \<and>
        list_all uppercase_alphanumeric a \<and> list_all uppercase_alphanumeric b)"

section \<open>Properties of the cover crop\<close>

lemma computeCoverCrop_wider:
  "srcW / srcH > dstW / dstH \<Longrightarrow>
   computeCoverCrop srcW srcH dstW dstH =
     \<lparr>sx = (srcW - srcH * (dstW / dstH)) / 2, sy = 0, sw = srcH * (dstW / dstH), sh = srcH\<rparr>"
  by (simp add: computeCoverCrop_def Let_def)

lemma computeCoverCrop_else:
  "\<not> srcW / srcH > dstW / dstH \<Longrightarrow>
   computeCoverCrop srcW srcH dstW dstH =
     \<lparr>sx = 0, sy = (srcH - srcW / (dstW / dstH)) / 2, sw = srcW, sh = srcW / (dstW / dstH)\<rparr>"
  by (simp add: computeCoverCrop_def Let_def)

lemma computeCoverCrop_inside:
  assumes "0 < srcW" "0 < srcH" "0 < dstW" "0 < dstH"
  shows "0 \<le> sx (computeCoverCrop srcW srcH dstW dstH) \<and>
         0 \<le> sy (computeCoverCrop srcW srcH dstW dstH) \<and>
         sx (computeCoverCrop srcW srcH dstW dstH) + sw (computeCoverCrop srcW srcH dstW dstH) \<le> srcW \<and>
         sy (computeCoverCrop srcW srcH dstW dstH) + sh (computeCoverCrop srcW srcH dstW dstH) \<le> srcH \<and>
         sw (computeCoverCrop srcW srcH dstW dstH) / sh (computeCoverCrop srcW srcH dstW dstH) = dstW / dstH \<and>
         0 < sw (computeCoverCrop srcW srcH dstW dstH) \<and>
         0 < sh (computeCoverCrop srcW srcH dstW dstH)"
proof (cases "srcW / srcH > dstW / dstH")
  case True
  define w where "w = srcH * (dstW / dstH)"
  have cc: "computeCoverCrop srcW srcH dstW dstH = \<lparr>sx = (srcW - w) / 2, sy = 0, sw = w, sh = srcH\<rparr>"
    using True by (simp add: computeCoverCrop_wider w_def)
  have "srcH * (dstW / dstH) < srcW"
    using True assms by (simp add: field_simps)
  then have "w < srcW" by (simp add: w_def)
  then have "0 \<le> (srcW - w) / 2 \<and> (srcW - w) / 2 + w \<le> srcW"
    by (simp add: field_simps)
  moreover have "w / srcH = dstW / dstH" using assms by (simp add: w_def)
  moreover have "0 < w" using assms by (simp add: w_def)
  ultimately show ?thesis using assms by (simp add: cc)
next
  case False
  define h where "h = srcW / (dstW / dstH)"
  have cc: "computeCoverCrop srcW srcH dstW dstH = \<lparr>sx = 0, sy = (srcH - h) / 2, sw = srcW, sh = h\<rparr>"
    using False by (simp add: computeCoverCrop_else h_def)
  from False have "srcW / srcH \<le> dstW / dstH" by simp
  then have "srcW / (dstW / dstH) \<le> srcH"
    using assms by (simp add: field_simps)
  then have "h \<le> srcH" by (simp add: h_def)
  then have "0 \<le> (srcH - h) / 2 \<and> (srcH - h) / 2 + h \<le> srcH"
    by (simp add: field_simps)
  moreover have "srcW / h = dstW / dstH" using assms by (simp add: h_def)
  moreover have "0 < h" using assms by (simp add: h_def)
  ultimately show ?thesis using assms by (simp add: cc)
qed

text \<open>
  C1. For positive \<open>srcW\<close>, \<open>srcH\<close>, \<open>dstW\<close>, \<open>dstH\<close> the rectangle returned by
  \<open>computeCoverCrop\<close> has a non-negative origin, ends inside the source
  (\<open>sx + sw \<le> srcW\<close>, \<open>sy + sh \<le> srcH\<close>) and has exactly the aspect ratio
  \<open>dstW / dstH\<close>, in exact arithmetic.
\<close>

theorem computeCoverCrop_in_bounds:
  assumes "0 < srcW" and "0 < srcH" and "0 < dstW" and "0 < dstH"
  shows "0 \<le> sx (computeCoverCrop srcW srcH dstW dstH) \<and>
         0 \<le> sy (computeCoverCrop srcW srcH dstW dstH) \<and>
         sx (computeCoverCrop srcW srcH dstW dstH) + sw (computeCoverCrop srcW srcH dstW dstH) \<le> srcW \<and>
         sy (computeCoverCrop srcW srcH dstW dstH) + sh (computeCoverCrop srcW srcH dstW dstH) \<le> srcH \<and>
         sw (computeCoverCrop srcW srcH dstW dstH) / sh (computeCoverCrop srcW srcH dstW dstH) = dstW / dstH"
  using computeCoverCrop_inside [OF assms] by simp

theorem computeCoverCrop_in_bounds_witness:
  "0 \<le> sx (computeCoverCrop 1920 1080 640 480) \<and>
   0 \<le> sy (computeCoverCrop 1920 1080 640 480) \<and>
   sx (computeCoverCrop 1920 1080 640 480) + sw (computeCoverCrop 1920 1080 640 480) \<le> 1920 \<and>
   sy (computeCoverCrop 1920 1080 640 480) + sh (computeCoverCrop 1920 1080 640 480) \<le> 1080 \<and>
   sw (computeCoverCrop 1920 1080 640 480) / sh (computeCoverCrop 1920 1080 640 480) = 640 / 480 \<and>
   computeCoverCrop 1920 1080 640 480 = \<lparr>sx = 240, sy = 0, sw = 1440, sh = 1080\<rparr>"
proof -
  have "computeCoverCrop 1920 1080 640 480 = \<lparr>sx = 240, sy = 0, sw = 1440, sh = 1080\<rparr>"
    by (simp add: computeCoverCrop_def Let_def)
  moreover note computeCoverCrop_in_bounds [of 1920 1080 640 480]
  ultimately show ?thesis by simp
qed

text \<open>
  C6. For positive inputs \<open>computeCoverCrop\<close> follows the case split: when
  \<open>srcW / srcH > dstW / dstH\<close> it returns the full source height, the width
  \<open>srcH * (dstW / dstH)\<close>, centred horizontally, with \<open>sy = 0\<close>; otherwise, also when
  the two ratios are equal, it returns the full source width, the height
  \<open>srcW / (dstW / dstH)\<close>, centred vertically, with \<open>sx = 0\<close>.
\<close>

theorem computeCoverCrop_case_split:
  assumes "0 < srcW" and "0 < srcH" and "0 < dstW" and "0 < dstH"
  shows "(srcW / srcH > dstW / dstH \<longrightarrow>
            sh (computeCoverCrop srcW srcH dstW dstH) = srcH \<and>
            sw (computeCoverCrop srcW srcH dstW dstH) = srcH * (dstW / dstH) \<and>
            sx (computeCoverCrop srcW srcH dstW dstH) =
              (srcW - sw (computeCoverCrop srcW srcH dstW dstH)) / 2 \<and>
            sy (computeCoverCrop srcW srcH dstW dstH) = 0) \<and>
         (srcW / srcH \<le> dstW / dstH \<longrightarrow>
            sw (computeCoverCrop srcW srcH dstW dstH) = srcW \<and>
            sh (computeCoverCrop srcW srcH dstW dstH) = srcW / (dstW / dstH) \<and>
            sx (computeCoverCrop srcW srcH dstW dstH) = 0 \<and>
            sy (computeCoverCrop srcW srcH dstW dstH) =
              (srcH - sh (computeCoverCrop srcW srcH dstW dstH)) / 2)"
proof (cases "srcW / srcH > dstW / dstH")
  case True
  then show ?thesis by (simp add: computeCoverCrop_wider)
next
  case False
  then show ?thesis by (simp add: computeCoverCrop_else)
qed

theorem computeCoverCrop_case_split_witness:
  "computeCoverCrop 200 100 100 100 = \<lparr>sx = 50, sy = 0, sw = 100, sh = 100\<rparr> \<and>
   computeCoverCrop 100 100 200 100 = \<lparr>sx = 0, sy = 25, sw = 100, sh = 50\<rparr> \<and>
   computeCoverCrop 200 100 200 100 = \<lparr>sx = 0, sy = 0, sw = 200, sh = 100\<rparr>"
proof -
  have a: "computeCoverCrop 200 100 100 100 = \<lparr>sx = 50, sy = 0, sw = 100, sh = 100\<rparr>"
    using computeCoverCrop_case_split [of 200 100 100 100]
    by (cases "computeCoverCrop 200 100 100 100") simp
  have b: "computeCoverCrop 100 100 200 100 = \<lparr>sx = 0, sy = 25, sw = 100, sh = 50\<rparr>"
    using computeCoverCrop_case_split [of 100 100 200 100]
    by (cases "computeCoverCrop 100 100 200 100") simp
  have c: "computeCoverCrop 200 100 200 100 = \<lparr>sx = 0, sy = 0, sw = 200, sh = 100\<rparr>"
    using computeCoverCrop_case_split [of 200 100 200 100]
    by (cases "computeCoverCrop 200 100 200 100") simp
  from a b c show ?thesis by simp
qed

section \<open>Properties of the OCR crop\<close>

lemma computeOCRCrop_unfold:
  "computeOCRCrop canvas frame =
     \<lparr>sx = sx (computeCoverCrop (width frame) (height frame) (width canvas) (height canvas)) +
             (width canvas - 100) / 2 *
             (sw (computeCoverCrop (width frame) (height frame) (width canvas) (height canvas)) / width canvas),
      sy = sy (computeCoverCrop (width frame) (height frame) (width canvas) (height canvas)) +
             (height canvas - 40) / 2 *
             (sh (computeCoverCrop (width frame) (height frame) (width canvas) (height canvas)) / height canvas),
      sw = 100 * (sw (computeCoverCrop (width frame) (height frame) (width canvas) (height canvas)) / width canvas),
      sh = 40 * (sh (computeCoverCrop (width frame) (height frame) (width canvas) (height canvas)) / height canvas)\<rparr>"
  by (simp add: computeOCRCrop_def Let_def GUIDE_WIDTH_def GUIDE_HEIGHT_def)

lemma guideBox_unfold:
  "guideBox canvas =
     \<lparr>sx = (width canvas - 100) / 2, sy = (height canvas - 40) / 2, sw = 100, sh = 40\<rparr>"
  by (simp add: guideBox_def Let_def GUIDE_WIDTH_def GUIDE_HEIGHT_def)

text \<open>
  C7. For a frame and a canvas of positive dimensions the OCR crop is the guide box, a
  fixed 100 by 40 rectangle centred in the canvas, carried into the frame through the display
  cover crop: with \<open>displayCrop\<close> the cover crop of the frame for the canvas,
  \<open>scaleX = sw displayCrop / width canvas\<close> and \<open>scaleY = sh displayCrop / height canvas\<close>,
  it starts at \<open>displayCrop\<close>'s origin plus the scaled corner of the box and has the
  scaled size of the box.
\<close>

theorem computeOCRCrop_guide_box:
  assumes "0 < width frame" and "0 < height frame"
    and "0 < width canvas" and "0 < height canvas"
  shows "computeOCRCrop canvas frame =
           (let displayCrop =
                  computeCoverCrop (width frame) (height frame) (width canvas) (height canvas);
                scaleX = sw displayCrop / width canvas;
                scaleY = sh displayCrop / height canvas
            in \<lparr>sx = sx displayCrop + ((width canvas - 100) / 2) * scaleX,
                sy = sy displayCrop + ((height canvas - 40) / 2) * scaleY,
                sw = 100 * scaleX,
                sh = 40 * scaleY\<rparr>) \<and>
         guideBox canvas =
           \<lparr>sx = (width canvas - 100) / 2, sy = (height canvas - 40) / 2, sw = 100, sh = 40\<rparr> \<and>
         sx (guideBox canvas) + sw (guideBox canvas) / 2 = width canvas / 2 \<and>
         sy (guideBox canvas) + sh (guideBox canvas) / 2 = height canvas / 2"
  by (simp add: computeOCRCrop_unfold guideBox_unfold Let_def field_simps)

theorem computeOCRCrop_guide_box_witness:
  "computeOCRCrop \<lparr>width = 640, height = 480\<rparr> \<lparr>width = 1920, height = 1080\<rparr> =
     \<lparr>sx = 847.5, sy = 495, sw = 225, sh = 90\<rparr>"
proof -
  have "computeCoverCrop 1920 1080 640 480 = \<lparr>sx = 240, sy = 0, sw = 1440, sh = 1080\<rparr>"
    by (simp add: computeCoverCrop_def Let_def)
  then show ?thesis
    using computeOCRCrop_guide_box [of "\<lparr>width = 1920, height = 1080\<rparr>" "\<lparr>width = 640, height = 480\<rparr>"]
    by (simp add: Let_def)
qed

text \<open>
  C9. For a frame of positive dimensions and a canvas at least 100 wide and 40 high, the
  rectangle returned by \<open>computeOCRCrop\<close> lies inside the frame, in exact arithmetic.
\<close>

theorem computeOCRCrop_in_frame:
  assumes "0 < width frame" and "0 < height frame"
    and "100 \<le> width canvas" and "40 \<le> height canvas"
  shows "0 \<le> sx (computeOCRCrop canvas frame) \<and>
         0 \<le> sy (computeOCRCrop canvas frame) \<and>
         sx (computeOCRCrop canvas frame) + sw (computeOCRCrop canvas frame) \<le> width frame \<and>
         sy (computeOCRCrop canvas frame) + sh (computeOCRCrop canvas frame) \<le> height frame"
proof -
  define d where "d = computeCoverCrop (width frame) (height frame) (width canvas) (height canvas)"
  define kx where "kx = sw d / width canvas"
  define ky where "ky = sh d / height canvas"
  have cpos: "0 < width canvas" "0 < height canvas" using assms by simp_all
  have d: "0 \<le> sx d" "0 \<le> sy d" "sx d + sw d \<le> width frame" "sy d + sh d \<le> height frame"
    "0 < sw d" "0 < sh d"
    using computeCoverCrop_inside [OF assms(1,2) cpos] by (simp_all add: d_def)
  have k: "0 < kx" "0 < ky" using d cpos by (simp_all add: kx_def ky_def)
  have ocr: "computeOCRCrop canvas frame =
      \<lparr>sx = sx d + (width canvas - 100) / 2 * kx, sy = sy d + (height canvas - 40) / 2 * ky,
       sw = 100 * kx, sh = 40 * ky\<rparr>"
    by (simp add: computeOCRCrop_unfold d_def kx_def ky_def)
  have x0: "0 \<le> (width canvas - 100) / 2 * kx" using assms k by simp
  have y0: "0 \<le> (height canvas - 40) / 2 * ky" using assms k by simp
  have "(width canvas - 100) / 2 * kx + 100 * kx = ((width canvas + 100) / 2) * kx"
    by (simp add: field_simps)
  also have "\<dots> \<le> width canvas * kx"
    using assms k by (intro mult_right_mono) simp_all
  also have "\<dots> = sw d" using cpos by (simp add: kx_def)
  finally have x1: "(width canvas - 100) / 2 * kx + 100 * kx \<le> sw d" .
  have "(height canvas - 40) / 2 * ky + 40 * ky = ((height canvas + 40) / 2) * ky"
    by (simp add: field_simps)
  also have "\<dots> \<le> height canvas * ky"
    using assms k by (intro mult_right_mono) simp_all
  also have "\<dots> = sh d" using cpos by (simp add: ky_def)
  finally have y1: "(height canvas - 40) / 2 * ky + 40 * ky \<le> sh d" .
  show ?thesis using d x0 y0 x1 y1 by (simp add: ocr)
qed

theorem computeOCRCrop_in_frame_witness:
  "0 \<le> sx (computeOCRCrop \<lparr>width = 640, height = 480\<rparr> \<lparr>width = 1920, height = 1080\<rparr>) \<and>
   sx (computeOCRCrop \<lparr>width = 640, height = 480\<rparr> \<lparr>width = 1920, height = 1080\<rparr>) +
     sw (computeOCRCrop \<lparr>width = 640, height = 480\<rparr> \<lparr>width = 1920, height = 1080\<rparr>) \<le> 1920 \<and>
   0 \<le> sy (computeOCRCrop \<lparr>width = 640, height = 480\<rparr> \<lparr>width = 1920, height = 1080\<rparr>) \<and>
   sy (computeOCRCrop \<lparr>width = 640, height = 480\<rparr> \<lparr>width = 1920, height = 1080\<rparr>) +
     sh (computeOCRCrop \<lparr>width = 640, height = 480\<rparr> \<lparr>width = 1920, height = 1080\<rparr>) \<le> 1080"
  using computeOCRCrop_in_frame [of "\<lparr>width = 1920, height = 1080\<rparr>" "\<lparr>width = 640, height = 480\<rparr>"]
  by simp

section \<open>Non-positive dimensions\<close>

text \<open>
  C3, as stated, says that a geometry call with a zero or negative dimension fails with
  \<open>InvalidDimension\<close>. The calls below, with a negative source width, a zero source
  width and a frame of zero width, return a rectangle.
\<close>

theorem geometry_invalid_dimension_counterexample:
  "computeCoverCrop_outcome (- 100) 100 100 100 =
     Inr \<lparr>sx = 0, sy = 100, sw = - 100, sh = - 100\<rparr> \<and>
   computeCoverCrop_outcome (- 100) 100 100 100 \<noteq> Inl InvalidDimension \<and>
   computeCoverCrop_outcome 0 100 100 100 = Inr \<lparr>sx = 0, sy = 50, sw = 0, sh = 0\<rparr> \<and>
   computeCoverCrop_outcome 0 100 100 100 \<noteq> Inl InvalidDimension \<and>
   computeOCRCrop_outcome \<lparr>width = 640, height = 480\<rparr> \<lparr>width = 0, height = 1080\<rparr> =
     Inr \<lparr>sx = 0, sy = 540, sw = 0, sh = 0\<rparr> \<and>
   computeOCRCrop_outcome \<lparr>width = 640, height = 480\<rparr> \<lparr>width = 0, height = 1080\<rparr> \<noteq>
     Inl InvalidDimension"
  by (simp add: computeCoverCrop_outcome_def computeOCRCrop_outcome_def computeOCRCrop_def
      computeCoverCrop_def Let_def)

text \<open>
  C3, amended. The geometry functions do not validate their inputs and never fail with
  \<open>InvalidDimension\<close>; a call with a non-positive dimension completes and returns the
  rectangle of the same formulas. For a source width that is zero or negative, the other
  three inputs positive, this is the rectangle of the else branch, whose width is the
  non-positive source width.
\<close>

theorem geometry_no_validation:
  "computeCoverCrop_outcome srcW srcH dstW dstH \<noteq> Inl InvalidDimension \<and>
   computeOCRCrop_outcome canvas frame \<noteq> Inl InvalidDimension \<and>
   (srcW \<le> 0 \<and> 0 < srcH \<and> 0 < dstW \<and> 0 < dstH \<longrightarrow>
      computeCoverCrop_outcome srcW srcH dstW dstH =
        Inr \<lparr>sx = 0, sy = (srcH - srcW / (dstW / dstH)) / 2, sw = srcW, sh = srcW / (dstW / dstH)\<rparr>)"
proof -
  have "srcW \<le> 0 \<and> 0 < srcH \<and> 0 < dstW \<and> 0 < dstH \<longrightarrow> \<not> srcW / srcH > dstW / dstH"
  proof
    assume a: "srcW \<le> 0 \<and> 0 < srcH \<and> 0 < dstW \<and> 0 < dstH"
    then have "srcW / srcH \<le> 0" by (simp add: divide_nonpos_pos)
    moreover have "0 < dstW / dstH" using a by simp
    ultimately show "\<not> srcW / srcH > dstW / dstH" by simp
  qed
  then show ?thesis
    by (auto simp: computeCoverCrop_outcome_def computeOCRCrop_outcome_def computeCoverCrop_else)
qed

theorem geometry_no_validation_witness:
  "computeCoverCrop_outcome (- 100) 100 100 100 = Inr \<lparr>sx = 0, sy = 100, sw = - 100, sh = - 100\<rparr>"
  using geometry_no_validation [of "- 100" 100 100 100] by simp

section \<open>Properties of text validation and catalog lookup\<close>

lemma matches_pieces_Cons:
  "matches_pieces ((cls, lo, hi) # ps) s \<longleftrightarrow>
     (\<exists>a r. s = a @ r \<and> lo \<le> length a \<and> length a \<le> hi \<and> list_all cls a \<and> matches_pieces ps r)"
proof
  assume "matches_pieces ((cls, lo, hi) # ps) s"
  then obtain k where k: "lo \<le> k" "k \<le> hi" "k \<le> length s" "list_all cls (take k s)"
      "matches_pieces ps (drop k s)"
    by (auto simp: list_ex_iff)
  have "s = take k s @ drop k s" by simp
  moreover have "length (take k s) = k" using k by simp
  ultimately show "\<exists>a r. s = a @ r \<and> lo \<le> length a \<and> length a \<le> hi \<and> list_all cls a \<and> matches_pieces ps r"
    using k by metis
next
  assume "\<exists>a r. s = a @ r \<and> lo \<le> length a \<and> length a \<le> hi \<and> list_all cls a \<and> matches_pieces ps r"
  then obtain a r where "s = a @ r" "lo \<le> length a" "length a \<le> hi" "list_all cls a"
      "matches_pieces ps r"
    by blast
  then show "matches_pieces ((cls, lo, hi) # ps) s"
    by (auto simp: list_ex_iff intro!: bexI [of _ "length a"])
qed

lemma letter_codes: "map of_char ''ABCDEFGHIJKLMNOPQRSTUVWXYZ'' = [65..<91::nat]"
  by simp

lemma digit_codes: "map of_char ''0123456789'' = [48..<58::nat]"
  by simp

lemma upper_or_digit_letters: "upper_or_digit c \<longleftrightarrow> uppercase_alphanumeric c"
proof -
  have "(of_char ` set ''ABCDEFGHIJKLMNOPQRSTUVWXYZ0123456789'' :: nat set) =
      set (map of_char ''ABCDEFGHIJKLMNOPQRSTUVWXYZ'') \<union> set (map of_char ''0123456789'')"
    unfolding set_map image_Un [symmetric] set_append [symmetric] by simp
  also have "\<dots> = {65..<91} \<union> {48..<58}"
    unfolding letter_codes digit_codes by (simp only: set_upt)
  finally have codes: "(of_char ` set ''ABCDEFGHIJKLMNOPQRSTUVWXYZ0123456789'' :: nat set) =
      {65..<91} \<union> {48..<58}" .
  have "upper_or_digit c \<longleftrightarrow>
      (of_char c :: nat) \<in> of_char ` set ''ABCDEFGHIJKLMNOPQRSTUVWXYZ0123456789''"
    unfolding codes by (auto simp: upper_or_digit_def Let_def)
  also have "\<dots> \<longleftrightarrow> c \<in> set ''ABCDEFGHIJKLMNOPQRSTUVWXYZ0123456789''"
    by (rule inj_image_mem_iff [OF inj_of_char])
  finally show ?thesis by (simp only: uppercase_alphanumeric_def)
qed

lemma hyphen_piece: "1 \<le> length h \<and> length h \<le> 1 \<and> list_all hyphen h \<longleftrightarrow> h = ''-''"
  by (cases h) (auto simp: hyphen_def)

lemma CODE_REGEX_test_iff: "CODE_REGEX_test t \<longleftrightarrow> structural_pattern t"
proof -
  have cls: "list_all upper_or_digit = list_all uppercase_alphanumeric"
    by (rule ext) (simp add: list_all_iff upper_or_digit_letters)
  have "CODE_REGEX_test t \<longleftrightarrow>
      (\<exists>a r. t = a @ r \<and> 3 \<le> length a \<and> length a \<le> 5 \<and> list_all upper_or_digit a \<and>
        (\<exists>h r'. r = h @ r' \<and> (1 \<le> length h \<and> length h \<le> 1 \<and> list_all hyphen h) \<and>
          (\<exists>b r''. r' = b @ r'' \<and> 3 \<le> length b \<and> length b \<le> 5 \<and> list_all upper_or_digit b \<and>
             r'' = [])))"
    by (simp only: CODE_REGEX_test_def CODE_REGEX_def matches_pieces_Cons matches_pieces.simps(1)
        conj_assoc)
  also have "\<dots> \<longleftrightarrow> structural_pattern t"
    unfolding hyphen_piece structural_pattern_def cls by auto
  finally show ?thesis .
qed

lemma startsWith_prefix: "startsWith s p \<longleftrightarrow> prefix p s"
  by (induction s p rule: startsWith.induct) auto

lemma not_hyphen: "uppercase_alphanumeric c \<Longrightarrow> c \<noteq> CHR ''-''"
  by (auto simp: uppercase_alphanumeric_def)

lemma split_first_pattern:
  assumes "list_all uppercase_alphanumeric a"
  shows "split_first (a @ ''-'' @ b) = a"
proof -
  have "\<forall>c\<in>set a. c \<noteq> CHR ''-''"
    using assms not_hyphen by (auto simp: list_all_iff)
  then show ?thesis by (simp add: split_first_def takeWhile_append)
qed

lemma resolve_find:
  "resolve catalog rawText =
     (if structural_pattern (trim rawText)
      then find (\<lambda>e. prefix (Number e) (split_first (trim rawText))) catalog
      else None)"
  by (simp add: resolve_def Let_def CODE_REGEX_test_iff startsWith_prefix)

lemma resolve_Some_iff:
  "resolve catalog rawText = Some e \<longleftrightarrow>
     structural_pattern (trim rawText) \<and>
     (\<exists>i<length catalog. catalog ! i = e \<and>
        prefix (Number e) (split_first (trim rawText)) \<and>
        (\<forall>j<i. \<not> prefix (Number (catalog ! j)) (split_first (trim rawText))))"
  by (auto simp: resolve_find find_Some_iff)

lemma resolve_None_iff:
  "resolve catalog rawText = None \<longleftrightarrow>
     \<not> structural_pattern (trim rawText) \<or>
     (\<forall>e\<in>set catalog. \<not> prefix (Number e) (split_first (trim rawText)))"
  by (auto simp: resolve_find find_None_iff)

lemma trim_AB12: "trim ''AB12-XY99'' = ''AB12-XY99''"
  by (simp add: trim_def is_white_space_def)

lemma pattern_AB12: "structural_pattern ''AB12-XY99''"
  unfolding CODE_REGEX_test_iff [symmetric]
  by (simp add: CODE_REGEX_test_def CODE_REGEX_def upper_or_digit_def hyphen_def)

lemma split_first_AB12: "split_first ''AB12-XY99'' = ''AB12''"
  by (simp add: split_first_def)

lemma resolve_lowercase: "resolve catalog ''ab12-xy99'' = None"
  by (simp add: resolve_def trim_def is_white_space_def CODE_REGEX_test_def CODE_REGEX_def
      upper_or_digit_def hyphen_def)

lemma resolve_short: "resolve catalog ''A1-B2'' = None"
  by (simp add: resolve_def trim_def is_white_space_def CODE_REGEX_test_def CODE_REGEX_def
      upper_or_digit_def hyphen_def)

text \<open>
  C2, as stated, says that \<open>AB12-XY99\<close> resolved against a catalog containing an entry
  with Number \<open>AB12\<close> yields that entry. In the catalog below an earlier entry has the
  Number \<open>AB\<close>, also a prefix of \<open>AB12\<close>, and it is the one returned.
\<close>

theorem resolve_shadowed_counterexample:
  "resolve [\<lparr>Number = ''AB'', Name = ''Short'', Year = ''1990'', Color = ''Red''\<rparr>,
            \<lparr>Number = ''AB12'', Name = ''Long'', Year = ''1991'', Color = ''Blue''\<rparr>]
     ''AB12-XY99'' =
     Some \<lparr>Number = ''AB'', Name = ''Short'', Year = ''1990'', Color = ''Red''\<rparr> \<and>
   resolve [\<lparr>Number = ''AB'', Name = ''Short'', Year = ''1990'', Color = ''Red''\<rparr>,
            \<lparr>Number = ''AB12'', Name = ''Long'', Year = ''1991'', Color = ''Blue''\<rparr>]
     ''AB12-XY99'' \<noteq>
     Some \<lparr>Number = ''AB12'', Name = ''Long'', Year = ''1991'', Color = ''Blue''\<rparr>"
  by (simp add: resolve_def trim_def is_white_space_def split_first_def CODE_REGEX_test_def
      CODE_REGEX_def upper_or_digit_def hyphen_def)

text \<open>
  C2, amended. When the trimmed text has the structural pattern, resolution returns the
  first entry in catalog order whose Number is a prefix of the segment before the first
  hyphen, which is the first group of the pattern; the result is \<open>None\<close> exactly when
  the trimmed text does not have the pattern or no entry's Number is such a prefix.
  \<open>AB12-XY99\<close> yields a catalog entry with Number \<open>AB12\<close> when no earlier entry's
  Number is a prefix of \<open>AB12\<close>; \<open>ab12-xy99\<close> and \<open>A1-B2\<close> yield no match in any
  catalog.
\<close>

theorem resolve_first_prefix_match:
  "(structural_pattern (trim rawText) \<longrightarrow>
      resolve catalog rawText =
        find (\<lambda>e. prefix (Number e) (split_first (trim rawText))) catalog) \<and>
   (resolve catalog rawText = Some e \<longleftrightarrow>
      structural_pattern (trim rawText) \<and>
      (\<exists>i<length catalog. catalog ! i = e \<and>
         prefix (Number e) (split_first (trim rawText)) \<and>
         (\<forall>j<i. \<not> prefix (Number (catalog ! j)) (split_first (trim rawText))))) \<and>
   (resolve catalog rawText = None \<longleftrightarrow>
      \<not> structural_pattern (trim rawText) \<or>
      (\<forall>e\<in>set catalog. \<not> prefix (Number e) (split_first (trim rawText)))) \<and>
   (list_all uppercase_alphanumeric a \<and> trim rawText = a @ ''-'' @ b \<longrightarrow>
      split_first (trim rawText) = a) \<and>
   (k < length catalog \<and> Number (catalog ! k) = ''AB12'' \<and>
      (\<forall>j<k. \<not> prefix (Number (catalog ! j)) ''AB12'') \<longrightarrow>
      resolve catalog ''AB12-XY99'' = Some (catalog ! k)) \<and>
   resolve catalog ''ab12-xy99'' = None \<and>
   resolve catalog ''A1-B2'' = None"
proof -
  have ex: "k < length catalog \<and> Number (catalog ! k) = ''AB12'' \<and>
      (\<forall>j<k. \<not> prefix (Number (catalog ! j)) ''AB12'') \<longrightarrow>
      resolve catalog ''AB12-XY99'' = Some (catalog ! k)"
    unfolding resolve_Some_iff trim_AB12 split_first_AB12
    using pattern_AB12 by auto
  have seg: "list_all uppercase_alphanumeric a \<and> trim rawText = a @ ''-'' @ b \<longrightarrow>
      split_first (trim rawText) = a"
    using split_first_pattern by simp
  have "structural_pattern (trim rawText) \<longrightarrow>
      resolve catalog rawText =
        find (\<lambda>e. prefix (Number e) (split_first (trim rawText))) catalog"
    by (simp add: resolve_find)
  with ex seg show ?thesis
    using resolve_Some_iff [of catalog rawText e] resolve_None_iff [of catalog rawText]
      resolve_lowercase [of catalog] resolve_short [of catalog]
    by blast
qed

theorem resolve_first_prefix_match_witness:
  "resolve [\<lparr>Number = ''XY99'', Name = ''Other'', Year = ''1990'', Color = ''Red''\<rparr>,
            \<lparr>Number = ''AB12'', Name = ''Long'', Year = ''1991'', Color = ''Blue''\<rparr>]
     ''AB12-XY99'' =
     Some \<lparr>Number = ''AB12'', Name = ''Long'', Year = ''1991'', Color = ''Blue''\<rparr> \<and>
   resolve [\<lparr>Number = ''XY99'', Name = ''Other'', Year = ''1990'', Color = ''Red''\<rparr>,
            \<lparr>Number = ''AB12'', Name = ''Long'', Year = ''1991'', Color = ''Blue''\<rparr>]
     '' AB123-XY99 '' =
     Some \<lparr>Number = ''AB12'', Name = ''Long'', Year = ''1991'', Color = ''Blue''\<rparr> \<and>
   split_first (trim '' AB123-XY99 '') = ''AB123''"
proof -
  let ?cat = "[\<lparr>Number = ''XY99'', Name = ''Other'', Year = ''1990'', Color = ''Red''\<rparr>,
            \<lparr>Number = ''AB12'', Name = ''Long'', Year = ''1991'', Color = ''Blue''\<rparr>]"
  have "1 < length ?cat \<and> Number (?cat ! 1) = ''AB12'' \<and>
      (\<forall>j<1. \<not> prefix (Number (?cat ! j)) ''AB12'')"
    by simp
  then have 1: "resolve ?cat ''AB12-XY99'' = Some (?cat ! 1)"
    using resolve_first_prefix_match [where catalog = ?cat and k = 1] by blast
  have t: "trim '' AB123-XY99 '' = ''AB123-XY99''"
    by (simp add: trim_def is_white_space_def)
  have "CODE_REGEX_test ''AB123-XY99''"
    by (simp add: CODE_REGEX_test_def CODE_REGEX_def upper_or_digit_def hyphen_def)
  then have p: "structural_pattern (trim '' AB123-XY99 '')"
    by (simp add: t CODE_REGEX_test_iff)
  have "list_all uppercase_alphanumeric ''AB123'' \<and> trim '' AB123-XY99 '' = ''AB123'' @ ''-'' @ ''XY99''"
    by (simp add: t uppercase_alphanumeric_def)
  then have 3: "split_first (trim '' AB123-XY99 '') = ''AB123''"
    using resolve_first_prefix_match [where rawText = "'' AB123-XY99 ''" and a = "''AB123''" and b = "''XY99''"]
    by blast
  from p have "resolve ?cat '' AB123-XY99 '' =
      find (\<lambda>e. prefix (Number e) (split_first (trim '' AB123-XY99 ''))) ?cat"
    using resolve_first_prefix_match [where rawText = "'' AB123-XY99 ''" and catalog = ?cat]
    by blast
  then have 2: "resolve ?cat '' AB123-XY99 '' = Some (?cat ! 1)"
    by (simp add: 3)
  from 1 2 3 show ?thesis by simp
qed

text \<open>
  C10. If the catalog contains an entry whose Number is the empty string, every text that
  passes the structural validation resolves to a match: the lookup does not return
  \<open>None\<close>, and the entry returned is the first entry of the catalog whose Number is a
  prefix of the segment before the hyphen, the empty Number being a prefix of every segment.
\<close>

theorem empty_Number_matches_all:
  assumes "e \<in> set catalog" and "Number e = ''''" and "CODE_REGEX_test (trim rawText)"
  shows "resolve catalog rawText \<noteq> None \<and>
         startsWith (split_first (trim rawText)) (Number e) \<and>
         (\<exists>m. resolve catalog rawText = Some m \<and> m \<in> set catalog \<and>
            startsWith (split_first (trim rawText)) (Number m) \<and>
            prefix (Number m) (split_first (trim rawText)) \<and>
            (\<exists>i<length catalog. catalog ! i = m \<and>
               (\<forall>j<i. \<not> prefix (Number (catalog ! j)) (split_first (trim rawText)))))"
proof -
  have pe: "prefix (Number e) (split_first (trim rawText))"
    using assms(2) by simp
  then have "\<not> (\<forall>e\<in>set catalog. \<not> prefix (Number e) (split_first (trim rawText)))"
    using assms(1) by blast
  then have some: "resolve catalog rawText \<noteq> None"
    using assms(3) by (simp add: resolve_None_iff CODE_REGEX_test_iff)
  then obtain m where m: "resolve catalog rawText = Some m" by blast
  then obtain i where i: "i < length catalog" "catalog ! i = m"
      "prefix (Number m) (split_first (trim rawText))"
      "\<forall>j<i. \<not> prefix (Number (catalog ! j)) (split_first (trim rawText))"
    unfolding resolve_Some_iff by blast
  from i(1,2) have "m \<in> set catalog" by auto
  with m i have "\<exists>m. resolve catalog rawText = Some m \<and> m \<in> set catalog \<and>
      startsWith (split_first (trim rawText)) (Number m) \<and>
      prefix (Number m) (split_first (trim rawText)) \<and>
      (\<exists>i<length catalog. catalog ! i = m \<and>
         (\<forall>j<i. \<not> prefix (Number (catalog ! j)) (split_first (trim rawText))))"
    by (auto simp: startsWith_prefix)
  with some pe show ?thesis by (simp add: startsWith_prefix)
qed

theorem empty_Number_matches_all_witness:
  "resolve [\<lparr>Number = ''AB12'', Name = ''Long'', Year = ''1991'', Color = ''Blue''\<rparr>,
            \<lparr>Number = '''', Name = ''Blank'', Year = ''1990'', Color = ''Red''\<rparr>]
     ''ZZZ-999'' =
     Some \<lparr>Number = '''', Name = ''Blank'', Year = ''1990'', Color = ''Red''\<rparr> \<and>
   resolve [\<lparr>Number = ''AB12'', Name = ''Long'', Year = ''1991'', Color = ''Blue''\<rparr>,
            \<lparr>Number = '''', Name = ''Blank'', Year = ''1990'', Color = ''Red''\<rparr>]
     ''ZZZ-999'' \<noteq>
     Some \<lparr>Number = ''AB12'', Name = ''Long'', Year = ''1991'', Color = ''Blue''\<rparr>"
proof -
  let ?long = "\<lparr>Number = ''AB12'', Name = ''Long'', Year = ''1991'', Color = ''Blue''\<rparr>"
  let ?blank = "\<lparr>Number = '''', Name = ''Blank'', Year = ''1990'', Color = ''Red''\<rparr>"
  have t: "trim ''ZZZ-999'' = ''ZZZ-999''"
    by (simp add: trim_def is_white_space_def)
  have v: "CODE_REGEX_test (trim ''ZZZ-999'')"
    unfolding t
    by (simp add: CODE_REGEX_test_def CODE_REGEX_def upper_or_digit_def hyphen_def)
  have seg: "split_first (trim ''ZZZ-999'') = ''ZZZ''"
    unfolding t by (simp add: split_first_def)
  have "?blank \<in> set [?long, ?blank]" and "Number ?blank = ''''"
    by simp_all
  from empty_Number_matches_all [OF this v]
  obtain m where m: "resolve [?long, ?blank] ''ZZZ-999'' = Some m" "m \<in> set [?long, ?blank]"
      "startsWith (split_first (trim ''ZZZ-999'')) (Number m)"
    by blast
  have "\<not> startsWith ''ZZZ'' (Number ?long)" by simp
  with m(3) have "m \<noteq> ?long" unfolding seg by blast
  with m(2) have "m = ?blank" by simp
  with m(1) show ?thesis by simp
qed

section \<open>Properties of the recognition cycle\<close>

lemma maybeRunOCR_resume_decomposed:
  "maybeRunOCR_resume s (Inr dataText) =
     (case update (currentEntry s) (resolve (hotwheelsData s) dataText) of
        (cur, changed) \<Rightarrow>
          (s\<lparr>currentEntry := cur\<rparr>,
           if changed then (case cur of Some m \<Rightarrow> [m] | None \<Rightarrow> []) else []))"
  by (simp add: maybeRunOCR_resume_def update_def resolve_def Let_def split: option.splits)

lemma maybeRunOCR_begin_gate:
  "maybeRunOCR_begin s now =
     (if worker s \<and> shouldRun now (lastOcrTime s) OCR_INTERVAL
      then (s\<lparr>lastOcrTime := now\<rparr>, True) else (s, False))"
  by (simp add: maybeRunOCR_begin_def shouldRun_def)

lemma maybeRunOCR_resume_lastOcrTime:
  "lastOcrTime (fst (maybeRunOCR_resume s answer)) = lastOcrTime s"
  by (cases answer) (simp_all add: maybeRunOCR_resume_def Let_def split: option.splits)

lemma maybeRunOCR_lastOcrTime:
  "lastOcrTime (fst (maybeRunOCR s now answer)) = lastOcrTime (fst (maybeRunOCR_begin s now))"
  by (simp add: maybeRunOCR_def maybeRunOCR_begin_gate maybeRunOCR_resume_lastOcrTime)

lemma maybeRunOCR_lastOcrTime_mono:
  "lastOcrTime s \<le> lastOcrTime (fst (maybeRunOCR s now answer))"
  by (simp add: maybeRunOCR_lastOcrTime maybeRunOCR_begin_gate shouldRun_def OCR_INTERVAL_def)

lemma step_lastOcrTime_mono: "lastOcrTime s \<le> lastOcrTime (step s e)"
  by (cases e)
    (simp_all add: maybeRunOCR_begin_gate shouldRun_def OCR_INTERVAL_def
      maybeRunOCR_resume_lastOcrTime)

lemma run_sorted: "sorted (lastOcrTime s # map lastOcrTime (run s events))"
proof (induction events arbitrary: s)
  case Nil
  show ?case by simp
next
  case (Cons e events)
  define s' where "s' = step s e"
  have le: "lastOcrTime s \<le> lastOcrTime s'"
    unfolding s'_def by (rule step_lastOcrTime_mono)
  have tl: "sorted (lastOcrTime s' # map lastOcrTime (run s' events))"
    by (rule Cons.IH)
  then have "\<forall>x\<in>set (map lastOcrTime (run s' events)). lastOcrTime s' \<le> x"
    by simp
  with le have "\<forall>x\<in>set (lastOcrTime s' # map lastOcrTime (run s' events)). lastOcrTime s \<le> x"
    by auto
  with tl show ?case
    by (simp add: Let_def s'_def [symmetric])
qed

text \<open>
  C4. The recognition throttle lets an attempt through exactly when
  \<open>now - lastRunTimestamp \<ge> intervalMs\<close>, so equality permits: it refuses at
  \<open>now = 1000\<close> and permits at \<open>now = 1050\<close> for \<open>last = 300\<close> and the interval 750.
  With a worker present, \<open>maybeRunOCR\<close> starts an attempt exactly when the throttle
  permits and then, and only then, sets \<open>lastOcrTime\<close> to \<open>now\<close>; without a worker
  it does nothing. For any interval, a time not before the stored one leaves the stored time
  between its old value and that time; with the program's interval the stored time never
  decreases, in one call and across any run.
\<close>

theorem recognition_gate:
  "(shouldRun now lastRunTimestamp intervalMs \<longleftrightarrow> now - lastRunTimestamp \<ge> intervalMs) \<and>
   \<not> shouldRun 1000 300 750 \<and>
   shouldRun 1050 300 750 \<and>
   (worker s \<longrightarrow>
      snd (maybeRunOCR_begin s now) = shouldRun now (lastOcrTime s) OCR_INTERVAL \<and>
      lastOcrTime (fst (maybeRunOCR s now answer)) =
        (if shouldRun now (lastOcrTime s) OCR_INTERVAL then now else lastOcrTime s)) \<and>
   (\<not> worker s \<longrightarrow> maybeRunOCR s now answer = (s, [])) \<and>
   (lastRunTimestamp \<le> now \<longrightarrow>
      lastRunTimestamp \<le> (if shouldRun now lastRunTimestamp intervalMs then now else lastRunTimestamp) \<and>
      (if shouldRun now lastRunTimestamp intervalMs then now else lastRunTimestamp) \<le> now) \<and>
   lastOcrTime s \<le> lastOcrTime (fst (maybeRunOCR s now answer)) \<and>
   sorted (lastOcrTime s # map lastOcrTime (run s events))"
proof -
  have "shouldRun now lastRunTimestamp intervalMs \<longleftrightarrow> now - lastRunTimestamp \<ge> intervalMs"
    by (auto simp: shouldRun_def)
  moreover have "\<not> shouldRun 1000 300 750" "shouldRun 1050 300 750"
    by (simp_all add: shouldRun_def)
  moreover have "worker s \<longrightarrow>
      snd (maybeRunOCR_begin s now) = shouldRun now (lastOcrTime s) OCR_INTERVAL \<and>
      lastOcrTime (fst (maybeRunOCR s now answer)) =
        (if shouldRun now (lastOcrTime s) OCR_INTERVAL then now else lastOcrTime s)"
    by (simp add: maybeRunOCR_lastOcrTime maybeRunOCR_begin_gate)
  moreover have "\<not> worker s \<longrightarrow> maybeRunOCR s now answer = (s, [])"
    by (simp add: maybeRunOCR_def maybeRunOCR_begin_gate)
  moreover have "lastRunTimestamp \<le> now \<longrightarrow>
      lastRunTimestamp \<le> (if shouldRun now lastRunTimestamp intervalMs then now else lastRunTimestamp) \<and>
      (if shouldRun now lastRunTimestamp intervalMs then now else lastRunTimestamp) \<le> now"
    by simp
  ultimately show ?thesis
    using maybeRunOCR_lastOcrTime_mono [of s now answer] run_sorted [of s events]
    by blast
qed

theorem recognition_gate_witness:
  "lastOcrTime (fst (maybeRunOCR (initial_state []) 750 (Inl RecognitionFailure))) = 750 \<and>
   lastOcrTime (fst (maybeRunOCR (initial_state []) 749 (Inl RecognitionFailure))) = 0 \<and>
   shouldRun 750 (lastOcrTime (initial_state [])) OCR_INTERVAL \<and>
   \<not> shouldRun 749 (lastOcrTime (initial_state [])) OCR_INTERVAL \<and>
   maybeRunOCR \<lparr>worker = False, lastOcrTime = 0, hotwheelsData = [], currentEntry = None\<rparr>
     750 (Inl RecognitionFailure) =
     (\<lparr>worker = False, lastOcrTime = 0, hotwheelsData = [], currentEntry = None\<rparr>, []) \<and>
   (300::real) \<le> (if shouldRun 1050 300 750 then 1050 else 300)"
proof -
  have w: "worker (initial_state [])" by (simp add: initial_state_def)
  have a: "shouldRun 750 (lastOcrTime (initial_state [])) OCR_INTERVAL"
    and b: "\<not> shouldRun 749 (lastOcrTime (initial_state [])) OCR_INTERVAL"
    by (simp_all add: shouldRun_def initial_state_def OCR_INTERVAL_def)
  have 1: "lastOcrTime (fst (maybeRunOCR (initial_state []) 750 (Inl RecognitionFailure))) = 750"
    using w a
      recognition_gate [where s = "initial_state []" and now = 750 and answer = "Inl RecognitionFailure"]
    by simp
  have 2: "lastOcrTime (fst (maybeRunOCR (initial_state []) 749 (Inl RecognitionFailure))) = 0"
    using w b
      recognition_gate [where s = "initial_state []" and now = 749 and answer = "Inl RecognitionFailure"]
    by (simp add: initial_state_def)
  let ?off = "\<lparr>worker = False, lastOcrTime = 0, hotwheelsData = [], currentEntry = None\<rparr>"
  have "\<not> worker ?off" by simp
  then have 3: "maybeRunOCR ?off 750 (Inl RecognitionFailure) = (?off, [])"
    using recognition_gate [where s = ?off and now = 750 and answer = "Inl RecognitionFailure"]
    by blast
  have "(300::real) \<le> 1050" by simp
  then have 4: "(300::real) \<le> (if shouldRun 1050 300 750 then 1050 else 300)"
    using recognition_gate [where lastRunTimestamp = 300 and now = 1050 and intervalMs = 750]
    by blast
  from 1 2 3 4 a b show ?thesis by simp
qed

section \<open>Properties of the entry tracker\<close>

lemma resolve_same_Number:
  assumes "resolve catalog t = Some c" and "resolve catalog t' = Some a"
    and "Number c = Number a"
  shows "c = a"
proof -
  obtain i where i: "i < length catalog" "catalog ! i = c"
      "prefix (Number c) (split_first (trim t))"
      "\<forall>j<i. \<not> prefix (Number (catalog ! j)) (split_first (trim t))"
    using assms(1) unfolding resolve_Some_iff by blast
  obtain k where k: "k < length catalog" "catalog ! k = a"
      "prefix (Number a) (split_first (trim t'))"
      "\<forall>j<k. \<not> prefix (Number (catalog ! j)) (split_first (trim t'))"
    using assms(2) unfolding resolve_Some_iff by blast
  have "\<not> k < i" using i k assms(3) by auto
  moreover have "\<not> i < k" using i k assms(3) by auto
  ultimately have "i = k" by simp
  then show ?thesis using i k by simp
qed

lemma update_Some:
  "update stored (Some n) =
     (if stored = None \<or> (\<exists>c. stored = Some c \<and> Number n \<noteq> Number c)
      then (Some n, True) else (stored, False))"
  by (cases stored) (auto simp: update_def)

lemma update_None: "update stored None = (stored, False)"
  by (simp add: update_def)

lemma update_Some_Number:
  "\<exists>c. fst (update stored (Some a)) = Some c \<and> Number c = Number a"
  by (cases stored) (auto simp: update_def)

lemma update_twice:
  "update (fst (update stored (Some a))) (Some a) = (fst (update stored (Some a)), False)"
  by (cases stored) (auto simp: update_def)

lemma maybeRunOCR_resume_failure: "maybeRunOCR_resume s (Inl err) = (s, [])"
  by (simp add: maybeRunOCR_resume_def)

lemma maybeRunOCR_resume_no_match:
  "resolve (hotwheelsData s) dataText = None \<Longrightarrow> maybeRunOCR_resume s (Inr dataText) = (s, [])"
  by (simp add: maybeRunOCR_resume_decomposed update_None)

lemma step_hotwheelsData: "hotwheelsData (step s e) = hotwheelsData s"
proof (cases e)
  case (Called now)
  then show ?thesis by (simp add: maybeRunOCR_begin_gate)
next
  case (Answered answer)
  then show ?thesis
    by (cases answer)
      (simp_all add: maybeRunOCR_resume_failure maybeRunOCR_resume_decomposed split: prod.splits)
qed

lemma maybeRunOCR_resume_currentEntry_resolved:
  assumes "\<exists>t. currentEntry s = resolve (hotwheelsData s) t"
  shows "\<exists>t. currentEntry (fst (maybeRunOCR_resume s answer)) = resolve (hotwheelsData s) t"
proof (cases answer)
  case (Inl err)
  then show ?thesis
    using assms by (simp add: maybeRunOCR_resume_failure)
next
  case (Inr dataText)
  show ?thesis
  proof (cases "resolve (hotwheelsData s) dataText")
    case None
    then show ?thesis
      using assms Inr by (simp add: maybeRunOCR_resume_decomposed update_None)
  next
    case (Some m)
    then have "currentEntry (fst (maybeRunOCR_resume s answer)) = currentEntry s \<or>
        currentEntry (fst (maybeRunOCR_resume s answer)) = resolve (hotwheelsData s) dataText"
      using Inr by (simp add: maybeRunOCR_resume_decomposed update_Some)
    then show ?thesis using assms by auto
  qed
qed

lemma step_currentEntry_resolved:
  assumes "\<exists>t. currentEntry s = resolve (hotwheelsData s) t"
  shows "\<exists>t. currentEntry (step s e) = resolve (hotwheelsData s) t"
proof (cases e)
  case (Called now)
  then show ?thesis using assms by (simp add: maybeRunOCR_begin_gate)
next
  case (Answered answer)
  then show ?thesis
    using maybeRunOCR_resume_currentEntry_resolved [OF assms, of answer] by simp
qed

lemma run_currentEntry_resolved:
  assumes "\<exists>t. currentEntry s = resolve (hotwheelsData s) t"
    and "s' \<in> set (run s events)"
  shows "hotwheelsData s' = hotwheelsData s \<and> (\<exists>t. currentEntry s' = resolve (hotwheelsData s) t)"
  using assms
proof (induction events arbitrary: s)
  case Nil
  then show ?case by simp
next
  case (Cons e events)
  define s1 where "s1 = step s e"
  have d: "hotwheelsData s1 = hotwheelsData s"
    unfolding s1_def by (rule step_hotwheelsData)
  have r: "\<exists>t. currentEntry s1 = resolve (hotwheelsData s1) t"
    unfolding d unfolding s1_def using Cons.prems(1) by (rule step_currentEntry_resolved)
  from Cons.prems(2) have "s' = s1 \<or> s' \<in> set (run s1 events)"
    by (simp add: Let_def s1_def)
  then show ?case
  proof
    assume "s' = s1"
    with d r show ?thesis by simp
  next
    assume "s' \<in> set (run s1 events)"
    with Cons.IH [OF r] d show ?thesis by simp
  qed
qed

lemma initial_state_resolved:
  "\<exists>t. currentEntry (initial_state catalog) = resolve (hotwheelsData (initial_state catalog)) t"
proof -
  have "resolve catalog '''' = None"
    by (simp add: resolve_def trim_def CODE_REGEX_test_def CODE_REGEX_def)
  then show ?thesis by (auto simp: initial_state_def intro: exI [of _ "''''"])
qed

lemma update_resolved:
  assumes "stored = None \<or> stored = resolve catalog t" and "resolve catalog t' = Some a"
  shows "fst (update stored (Some a)) = Some a"
proof (cases stored)
  case None
  then show ?thesis by (simp add: update_Some)
next
  case (Some c)
  with assms have "resolve catalog t = Some c" by simp
  with assms(2) have "Number c = Number a \<Longrightarrow> c = a"
    using resolve_same_Number by blast
  with Some show ?thesis by (auto simp: update_Some)
qed

lemma reachable_update_resolved:
  assumes "s' \<in> set (initial_state catalog # run (initial_state catalog) events)"
    and "resolve catalog t' = Some a"
  shows "currentEntry (fst (maybeRunOCR_resume s' (Inr t'))) = Some a"
proof -
  have c: "hotwheelsData (initial_state catalog) = catalog"
    by (simp add: initial_state_def)
  have "hotwheelsData s' = catalog \<and> (\<exists>t. currentEntry s' = resolve catalog t)"
  proof (cases "s' = initial_state catalog")
    case True
    then show ?thesis using initial_state_resolved [of catalog] by (simp add: c)
  next
    case False
    with assms(1) have "s' \<in> set (run (initial_state catalog) events)" by simp
    then show ?thesis
      using run_currentEntry_resolved [OF initial_state_resolved, of s' catalog events]
      by (simp add: c)
  qed
  then obtain t where d: "hotwheelsData s' = catalog" and r: "currentEntry s' = resolve catalog t"
    by blast
  have "fst (update (currentEntry s') (Some a)) = Some a"
    using r assms(2) by (intro update_resolved [of _ catalog t t']) simp_all
  then show ?thesis
    by (cases "update (currentEntry s') (Some a)")
      (simp add: maybeRunOCR_resume_decomposed d assms(2))
qed

text \<open>
  C5. A present new entry whose Number differs from the stored entry's, or any present
  entry when none is stored, replaces the stored entry and is reported; an absent one, or
  one with the stored Number, changes nothing and is not reported. Updating twice with the
  same entry reports nothing the second time, and an absent update after an update with
  \<open>a\<close> reports nothing and leaves the entry as it was, which is \<open>a\<close> for the entries
  that the program stores and finds: results of the lookup in one catalog.
\<close>

theorem update_suppresses_repeats:
  "(stored = None \<or> (\<exists>c. stored = Some c \<and> Number n \<noteq> Number c) \<longrightarrow>
      update stored (Some n) = (Some n, True)) \<and>
   ((\<exists>c. stored = Some c \<and> Number n = Number c) \<longrightarrow>
      update stored (Some n) = (stored, False)) \<and>
   update stored None = (stored, False) \<and>
   update (fst (update stored (Some a))) (Some a) =
     (fst (update stored (Some a)), False) \<and>
   update (fst (update stored (Some a))) None =
     (fst (update stored (Some a)), False) \<and>
   ((stored = None \<or> stored = resolve catalog t) \<and> resolve catalog t' = Some a \<longrightarrow>
      fst (update (fst (update stored (Some a))) None) = Some a) \<and>
   (s' \<in> set (initial_state catalog # run (initial_state catalog) events) \<and>
      resolve catalog t' = Some a \<longrightarrow>
      currentEntry (fst (maybeRunOCR_resume s' (Inr t'))) = Some a) \<and>
   maybeRunOCR_resume s (Inr dataText) =
     (case update (currentEntry s) (resolve (hotwheelsData s) dataText) of
        (cur, changed) \<Rightarrow>
          (s\<lparr>currentEntry := cur\<rparr>,
           if changed then (case cur of Some m \<Rightarrow> [m] | None \<Rightarrow> []) else []))"
proof -
  have first: "(stored = None \<or> stored = resolve catalog t) \<and> resolve catalog t' = Some a \<longrightarrow>
      fst (update (fst (update stored (Some a))) None) = Some a"
    using update_resolved [of stored catalog t t' a] by (simp add: update_None)
  have reach: "s' \<in> set (initial_state catalog # run (initial_state catalog) events) \<and>
      resolve catalog t' = Some a \<longrightarrow>
      currentEntry (fst (maybeRunOCR_resume s' (Inr t'))) = Some a"
    using reachable_update_resolved [of s' catalog events t' a] by blast
  have "(\<exists>c. stored = Some c \<and> Number n = Number c) \<longrightarrow>
      update stored (Some n) = (stored, False)"
    by (auto simp: update_Some)
  moreover have "stored = None \<or> (\<exists>c. stored = Some c \<and> Number n \<noteq> Number c) \<longrightarrow>
      update stored (Some n) = (Some n, True)"
    by (simp add: update_Some)
  ultimately show ?thesis
    using first reach update_None update_twice maybeRunOCR_resume_decomposed by simp
qed

theorem update_suppresses_repeats_witness:
  "update None (Some \<lparr>Number = ''AB12'', Name = ''Long'', Year = ''1991'', Color = ''Blue''\<rparr>) =
     (Some \<lparr>Number = ''AB12'', Name = ''Long'', Year = ''1991'', Color = ''Blue''\<rparr>, True) \<and>
   update (Some \<lparr>Number = ''AB12'', Name = ''Long'', Year = ''1991'', Color = ''Blue''\<rparr>)
     (Some \<lparr>Number = ''AB12'', Name = ''Long'', Year = ''1991'', Color = ''Blue''\<rparr>) =
     (Some \<lparr>Number = ''AB12'', Name = ''Long'', Year = ''1991'', Color = ''Blue''\<rparr>, False) \<and>
   update (Some \<lparr>Number = ''AB12'', Name = ''Long'', Year = ''1991'', Color = ''Blue''\<rparr>) None =
     (Some \<lparr>Number = ''AB12'', Name = ''Long'', Year = ''1991'', Color = ''Blue''\<rparr>, False) \<and>
   fst (update (fst (update None
       (Some \<lparr>Number = ''AB12'', Name = ''Long'', Year = ''1991'', Color = ''Blue''\<rparr>))) None) =
     Some \<lparr>Number = ''AB12'', Name = ''Long'', Year = ''1991'', Color = ''Blue''\<rparr> \<and>
   currentEntry (fst (maybeRunOCR_resume
       (initial_state [\<lparr>Number = ''AB12'', Name = ''Long'', Year = ''1991'', Color = ''Blue''\<rparr>])
       (Inr ''AB12-XY99''))) =
     Some \<lparr>Number = ''AB12'', Name = ''Long'', Year = ''1991'', Color = ''Blue''\<rparr>"
proof -
  let ?a = "\<lparr>Number = ''AB12'', Name = ''Long'', Year = ''1991'', Color = ''Blue''\<rparr>"
  note t = update_suppresses_repeats [where stored = None and n = ?a and a = ?a]
  from t have 1: "update None (Some ?a) = (Some ?a, True)" by blast
  have "\<exists>c. Some ?a = Some c \<and> Number ?a = Number c" by simp
  then have 2: "update (Some ?a) (Some ?a) = (Some ?a, False)"
    using update_suppresses_repeats [where stored = "Some ?a" and n = ?a] by blast
  from t have "update (fst (update None (Some ?a))) None = (fst (update None (Some ?a)), False)"
    by blast
  then have 3: "update (Some ?a) None = (Some ?a, False)" by (simp add: 1)
  have r: "resolve [?a] ''AB12-XY99'' = Some ?a"
    by (simp add: resolve_def trim_def is_white_space_def split_first_def CODE_REGEX_test_def
        CODE_REGEX_def upper_or_digit_def hyphen_def)
  then have 4: "fst (update (fst (update None (Some ?a))) None) = Some ?a"
    using update_suppresses_repeats
      [where stored = None and a = ?a and catalog = "[?a]" and t' = "''AB12-XY99''"]
    by blast
  have "initial_state [?a] \<in> set (initial_state [?a] # run (initial_state [?a]) [])"
    by simp
  with r have 5: "currentEntry (fst (maybeRunOCR_resume (initial_state [?a]) (Inr ''AB12-XY99''))) = Some ?a"
    using update_suppresses_repeats
      [where s' = "initial_state [?a]" and a = ?a and catalog = "[?a]" and t' = "''AB12-XY99''"
        and events = "[]"]
    by blast
  from 1 2 3 4 5 show ?thesis by simp
qed

section \<open>Recognition failure\<close>

text \<open>
  C8. When the recognition engine fails, the second part of \<open>maybeRunOCR\<close> leaves the
  state as it finds it and reports nothing, as it does for a text without a match:
  \<open>currentEntry\<close> is kept, and \<open>lastOcrTime\<close> keeps the time set when the attempt
  started, so the throttle's next decision is the same as after any other answer.
\<close>

theorem recognition_failure_isolated:
  "maybeRunOCR_resume s (Inl err) = (s, []) \<and>
   (resolve (hotwheelsData s) dataText = None \<longrightarrow>
      maybeRunOCR_resume s (Inl err) = maybeRunOCR_resume s (Inr dataText)) \<and>
   currentEntry (fst (maybeRunOCR s now (Inl err))) = currentEntry s \<and>
   snd (maybeRunOCR s now (Inl err)) = [] \<and>
   (worker s \<and> shouldRun now (lastOcrTime s) OCR_INTERVAL \<longrightarrow>
      maybeRunOCR s now (Inl err) = (s\<lparr>lastOcrTime := now\<rparr>, []) \<and>
      lastOcrTime (fst (maybeRunOCR s now (Inl err))) = now) \<and>
   lastOcrTime (fst (maybeRunOCR s now (Inl err))) = lastOcrTime (fst (maybeRunOCR s now answer)) \<and>
   shouldRun later (lastOcrTime (fst (maybeRunOCR s now (Inl err)))) OCR_INTERVAL =
     shouldRun later (lastOcrTime (fst (maybeRunOCR s now answer))) OCR_INTERVAL"
proof -
  have run: "maybeRunOCR s now (Inl err) =
      (if worker s \<and> shouldRun now (lastOcrTime s) OCR_INTERVAL
       then (s\<lparr>lastOcrTime := now\<rparr>, []) else (s, []))"
    by (simp add: maybeRunOCR_def maybeRunOCR_begin_gate maybeRunOCR_resume_failure)
  have same: "lastOcrTime (fst (maybeRunOCR s now (Inl err))) =
      lastOcrTime (fst (maybeRunOCR s now answer))"
    by (simp add: maybeRunOCR_lastOcrTime)
  have "resolve (hotwheelsData s) dataText = None \<longrightarrow>
      maybeRunOCR_resume s (Inl err) = maybeRunOCR_resume s (Inr dataText)"
    by (simp add: maybeRunOCR_resume_failure maybeRunOCR_resume_no_match)
  moreover have "currentEntry (fst (maybeRunOCR s now (Inl err))) = currentEntry s"
    "snd (maybeRunOCR s now (Inl err)) = []"
    by (simp_all add: run)
  moreover have "worker s \<and> shouldRun now (lastOcrTime s) OCR_INTERVAL \<longrightarrow>
      maybeRunOCR s now (Inl err) = (s\<lparr>lastOcrTime := now\<rparr>, []) \<and>
      lastOcrTime (fst (maybeRunOCR s now (Inl err))) = now"
    by (simp add: run)
  ultimately show ?thesis
    using same maybeRunOCR_resume_failure [of s err] by simp
qed

theorem recognition_failure_isolated_witness:
  "maybeRunOCR
     \<lparr>worker = True, lastOcrTime = 300,
      hotwheelsData = [\<lparr>Number = ''AB12'', Name = ''Long'', Year = ''1991'', Color = ''Blue''\<rparr>],
      currentEntry = Some \<lparr>Number = ''AB12'', Name = ''Long'', Year = ''1991'', Color = ''Blue''\<rparr>\<rparr>
     1050 (Inl RecognitionFailure) =
   (\<lparr>worker = True, lastOcrTime = 1050,
     hotwheelsData = [\<lparr>Number = ''AB12'', Name = ''Long'', Year = ''1991'', Color = ''Blue''\<rparr>],
     currentEntry = Some \<lparr>Number = ''AB12'', Name = ''Long'', Year = ''1991'', Color = ''Blue''\<rparr>\<rparr>,
    []) \<and>
   maybeRunOCR_resume
     \<lparr>worker = True, lastOcrTime = 300,
      hotwheelsData = [\<lparr>Number = ''AB12'', Name = ''Long'', Year = ''1991'', Color = ''Blue''\<rparr>],
      currentEntry = Some \<lparr>Number = ''AB12'', Name = ''Long'', Year = ''1991'', Color = ''Blue''\<rparr>\<rparr>
     (Inl RecognitionFailure) =
   maybeRunOCR_resume
     \<lparr>worker = True, lastOcrTime = 300,
      hotwheelsData = [\<lparr>Number = ''AB12'', Name = ''Long'', Year = ''1991'', Color = ''Blue''\<rparr>],
      currentEntry = Some \<lparr>Number = ''AB12'', Name = ''Long'', Year = ''1991'', Color = ''Blue''\<rparr>\<rparr>
     (Inr ''A8I2-XY'')"
proof -
  let ?s = "\<lparr>worker = True, lastOcrTime = 300,
      hotwheelsData = [\<lparr>Number = ''AB12'', Name = ''Long'', Year = ''1991'', Color = ''Blue''\<rparr>],
      currentEntry = Some \<lparr>Number = ''AB12'', Name = ''Long'', Year = ''1991'', Color = ''Blue''\<rparr>\<rparr>"
  have "worker ?s \<and> shouldRun 1050 (lastOcrTime ?s) OCR_INTERVAL"
    by (simp add: shouldRun_def OCR_INTERVAL_def)
  then have 1: "maybeRunOCR ?s 1050 (Inl RecognitionFailure) = (?s\<lparr>lastOcrTime := 1050\<rparr>, [])"
    using recognition_failure_isolated [where s = ?s and now = 1050 and err = RecognitionFailure]
    by blast
  have "resolve (hotwheelsData ?s) ''A8I2-XY'' = None"
    by (simp add: resolve_def trim_def is_white_space_def split_first_def CODE_REGEX_test_def
        CODE_REGEX_def upper_or_digit_def hyphen_def)
  then have 2: "maybeRunOCR_resume ?s (Inl RecognitionFailure) = maybeRunOCR_resume ?s (Inr ''A8I2-XY'')"
    using recognition_failure_isolated
      [where s = ?s and err = RecognitionFailure and dataText = "''A8I2-XY''"]
    by blast
  from 1 2 show ?thesis by simp
qed

end
